theory Spec2Isabelle
  imports
    Main
    "HOL-Library.Word"
    "HOL-Library.Signed_Division"
    "HOL-Library.List_Lexorder"
    "HOL-Library.Multiset"
begin

unbundle bit_operations_syntax

section \<open>Shotcut utility routines (src/util.cpp)\<close>

subsection \<open>Machine integers\<close>

text \<open>
  A C++ \<open>int\<close> is a 32-bit two's complement value. Addition, subtraction and
  multiplication are those of \<open>32 word\<close> (they wrap around); \<open>/\<close> truncates
  towards zero on the signed reading.
\<close>

type_synonym cint = "32 word"

definition int_div :: "cint \<Rightarrow> cint \<Rightarrow> cint" where
  "int_div a b = word_of_int (sint a sdiv sint b)"

subsection \<open>Util::coerceMultiple\<close>

text \<open>
  \<^verbatim>\<open>return (value + multiple - 1) / multiple * multiple;\<close>
\<close>

definition coerceMultiple :: "cint \<Rightarrow> cint \<Rightarrow> cint" where
  "coerceMultiple val multiple = int_div (val + multiple - 1) multiple * multiple"

subsection \<open>Qt strings and byte arrays\<close>

text \<open>
  A \<open>QString\<close> is a sequence of UTF-16 code units (\<open>QChar\<close>), a \<open>QByteArray\<close>
  a sequence of bytes. \<open>size()\<close> is \<open>length\<close>, \<open>operator==\<close> is equality and
  \<open>operator<\<close> compares code units lexicographically, which is the order of
  lists of words.
\<close>

type_synonym QChar = "16 word"
type_synonym QString = "QChar list"
type_synonym QStringList = "QString list"
type_synonym QByteArray = "8 word list"

text \<open>The \<open>QString\<close> of an ASCII string literal of the source.\<close>

definition QLatin1String :: "string \<Rightarrow> QString" where
  "QLatin1String s = map (\<lambda>c. of_nat (of_char c)) s"

text \<open>
  \<open>QString::toUpper\<close> and \<open>QChar::toLower\<close>, given on the code units whose
  converted form is an ASCII character: \<open>a\<close>..\<open>z\<close>, dotless i (U+0131) and long s
  (U+017F) for upper case; \<open>A\<close>..\<open>Z\<close>, dotted capital I (U+0130) and the Kelvin
  sign (U+212A) for lower case. Every other code unit is left as it is, so a comparison
  of a converted string with an ASCII literal gives what Qt gives.
\<close>

definition QChar_toUpper :: "QChar \<Rightarrow> QChar" where
  "QChar_toUpper c =
     (if 0x61 \<le> c \<and> c \<le> 0x7A then c - 0x20
      else if c = 0x131 then 0x49
      else if c = 0x17F then 0x53
      else c)"

definition QChar_toLower :: "QChar \<Rightarrow> QChar" where
  "QChar_toLower c =
     (if 0x41 \<le> c \<and> c \<le> 0x5A then c + 0x20
      else if c = 0x130 then 0x69
      else if c = 0x212A then 0x6B
      else c)"

definition toUpper :: "QString \<Rightarrow> QString" where
  "toUpper s = map QChar_toUpper s"

text \<open>\<open>QString::mid(position)\<close>: the part from \<open>position\<close> to the end.\<close>

definition mid :: "QString \<Rightarrow> nat \<Rightarrow> QString" where
  "mid s position = drop position s"

text \<open>\<open>QStringList::contains(str)\<close>, case sensitive.\<close>

definition QStringList_contains :: "QStringList \<Rightarrow> QString \<Rightarrow> bool" where
  "QStringList_contains list str = (str \<in> set list)"

subsubsection \<open>UTF-8 conversion (\<open>QString::toUtf8\<close>, \<open>QString::fromUtf8\<close>)\<close>

definition isHighSurrogate :: "QChar \<Rightarrow> bool" where
  "isHighSurrogate u = (u AND 0xFC00 = 0xD800)"

definition isLowSurrogate :: "QChar \<Rightarrow> bool" where
  "isLowSurrogate u = (u AND 0xFC00 = 0xDC00)"

definition isSurrogate :: "QChar \<Rightarrow> bool" where
  "isSurrogate u = (u AND 0xF800 = 0xD800)"

definition surrogateToUcs4 :: "QChar \<Rightarrow> QChar \<Rightarrow> 32 word" where
  "surrogateToUcs4 high low = push_bit 10 (ucast high) + ucast low - 0x35FDC00"

text \<open>
  Encoding: one to three bytes for a code unit that is not a surrogate, four bytes for a
  surrogate pair, and \<open>?\<close> for a surrogate that has no partner.
\<close>

fun toUtf8 :: "QString \<Rightarrow> QByteArray" where
  "toUtf8 [] = []"
| "toUtf8 (u # src) =
     (if u < 0x80 then ucast u # toUtf8 src
      else if u < 0x800 then
        (0xC0 OR ucast (drop_bit 6 u)) # (0x80 OR ucast (u AND 0x3F)) # toUtf8 src
      else if \<not> isSurrogate u then
        (0xE0 OR ucast (drop_bit 12 u)) # (0x80 OR (ucast (drop_bit 6 u) AND 0x3F))
          # (0x80 OR ucast (u AND 0x3F)) # toUtf8 src
      else
        (case src of
           [] \<Rightarrow> [0x3F]
         | low # rest \<Rightarrow>
             if \<not> isHighSurrogate u then 0x3F # toUtf8 src
             else if \<not> isLowSurrogate low then 0x3F # toUtf8 src
             else
               (let ucs4 = surrogateToUcs4 u low in
                  (0xF0 OR (ucast (drop_bit 18 ucs4) AND 0xF))
                    # (0x80 OR (ucast (drop_bit 12 ucs4) AND 0x3F))
                    # (0x80 OR (ucast (drop_bit 6 ucs4) AND 0x3F))
                    # (0x80 OR ucast (ucs4 AND 0x3F)) # toUtf8 rest)))"

definition isContinuationByte :: "8 word \<Rightarrow> bool" where
  "isContinuationByte b = (b AND 0xC0 = 0x80)"

text \<open>
  Decoding one sequence that starts with the non-ASCII byte \<open>b\<close> and goes on in
  \<open>src\<close>: the code units it stands for and the number of bytes of \<open>src\<close> it takes,
  or \<open>None\<close> for an invalid, overlong or truncated sequence.
\<close>

definition utf8_sequence :: "8 word \<Rightarrow> QByteArray \<Rightarrow> (QString \<times> nat) option" where
  "utf8_sequence b src =
     (if b \<le> 0xC1 \<or> 0xF5 \<le> b then None
      else
        (let charsNeeded = (if b < 0xE0 then 2 else if b < 0xF0 then 3 else 4 :: nat);
             min_uc = (if b < 0xE0 then 0x80 else if b < 0xF0 then 0x800 else 0x10000 :: 32 word);
             lead = (if b < 0xE0 then b AND 0x1F else if b < 0xF0 then b AND 0x0F else b AND 0x07);
             more = take (charsNeeded - 1) src
         in
           if length src < charsNeeded - 1 then None
           else if \<not> list_all isContinuationByte more then None
           else
             (let uc = foldl (\<lambda>acc c. push_bit 6 acc OR ucast (c AND 0x3F)) (ucast lead) more
              in
                if uc < min_uc then None
                else if uc AND 0xFFFFF800 = 0xD800 \<or> 0x10FFFF < uc then None
                else if uc < 0x10000 then Some ([ucast uc], charsNeeded - 1)
                else Some ([ucast (drop_bit 10 uc + 0xD7C0), ucast (uc AND 0x3FF) + 0xDC00],
                           charsNeeded - 1))))"

text \<open>An invalid byte becomes U+FFFD and decoding goes on at the byte after it.\<close>

function convertToUnicode :: "QByteArray \<Rightarrow> QString" where
  "convertToUnicode [] = []"
| "convertToUnicode (b # src) =
     (if b < 0x80 then ucast b # convertToUnicode src
      else
        (case utf8_sequence b src of
           None \<Rightarrow> 0xFFFD # convertToUnicode src
         | Some (us, n) \<Rightarrow> us @ convertToUnicode (drop n src)))"
  by pat_completeness auto
termination
  by (relation "measure length") simp_all

text \<open>\<open>QString::fromUtf8\<close> skips a byte order mark at the start.\<close>

definition fromUtf8 :: "QByteArray \<Rightarrow> QString" where
  "fromUtf8 ba =
     (if take 3 ba = [0xEF, 0xBB, 0xBF] then convertToUnicode (drop 3 ba)
      else convertToUnicode ba)"

subsubsection \<open>Percent decoding (\<open>QUrl::fromPercentEncoding\<close>)\<close>

text \<open>
  \<open>QByteArray::fromPercentEncoding\<close>: a \<open>%\<close> with at least two bytes after it is
  replaced, with them, by the byte they spell in hexadecimal; a byte that is no
  hexadecimal digit is taken with its own value.
\<close>

definition hexValue :: "8 word \<Rightarrow> 8 word" where
  "hexValue a =
     (if 0x30 \<le> a \<and> a \<le> 0x39 then a - 0x30
      else if 0x61 \<le> a \<and> a \<le> 0x66 then a - 0x61 + 10
      else if 0x41 \<le> a \<and> a \<le> 0x46 then a - 0x41 + 10
      else a)"

fun QByteArray_fromPercentEncoding :: "QByteArray \<Rightarrow> QByteArray" where
  "QByteArray_fromPercentEncoding (c # a # b # rest) =
     (if c = 0x25 then (push_bit 4 (hexValue a) OR hexValue b) # QByteArray_fromPercentEncoding rest
      else c # QByteArray_fromPercentEncoding (a # b # rest))"
| "QByteArray_fromPercentEncoding (c # rest) = c # QByteArray_fromPercentEncoding rest"
| "QByteArray_fromPercentEncoding [] = []"

definition fromPercentEncoding :: "QByteArray \<Rightarrow> QString" where
  "fromPercentEncoding input = fromUtf8 (QByteArray_fromPercentEncoding input)"

subsection \<open>QUrl and QFileInfo\<close>

text \<open>
  A \<open>QUrl\<close> is read by \<open>Util::removeFileScheme\<close> through three observers only:
  \<open>url()\<close>, \<open>scheme()\<close> and \<open>toString(QUrl::PreferLocalFile)\<close>. The record holds
  what they return.
\<close>

record QUrl =
  url :: QString
  scheme :: QString
  toString_PreferLocalFile :: QString

text \<open>
  \<open>QUrl(path)\<close> for an ASCII path without a scheme and without characters that a URL
  encodes: every observer gives the path back.
\<close>

definition QUrl_ofPath :: "string \<Rightarrow> QUrl" where
  "QUrl_ofPath p =
     \<lparr>url = QLatin1String p, scheme = [], toString_PreferLocalFile = QLatin1String p\<rparr>"

text \<open>
  \<open>QUrl::fromLocalFile(path)\<close> for an absolute ASCII path without characters that a
  URL encodes: the URL is \<open>file://\<close> followed by the path.
\<close>

definition QUrl_fromLocalFile :: "string \<Rightarrow> QUrl" where
  "QUrl_fromLocalFile p =
     \<lparr>url = QLatin1String (''file://'' @ p), scheme = QLatin1String ''file'',
      toString_PreferLocalFile = QLatin1String p\<rparr>"

text \<open>
  A \<open>QFileInfo\<close> holds the path it was made from, with \<open>/\<close> as the separator.
  \<open>filePath()\<close> gives it back, \<open>fileName()\<close> is the part after the last \<open>/\<close>,
  \<open>baseName()\<close> the file name up to its first dot, \<open>suffix()\<close> the file name
  after its last dot (empty without a dot).
\<close>

datatype QFileInfo = QFileInfo QString

fun filePath :: "QFileInfo \<Rightarrow> QString" where
  "filePath (QFileInfo p) = p"

definition fileName :: "QFileInfo \<Rightarrow> QString" where
  "fileName info = rev (takeWhile (\<lambda>c. c \<noteq> 0x2F) (rev (filePath info)))"

definition baseName :: "QFileInfo \<Rightarrow> QString" where
  "baseName info = takeWhile (\<lambda>c. c \<noteq> 0x2E) (fileName info)"

definition suffix :: "QFileInfo \<Rightarrow> QString" where
  "suffix info =
     (if 0x2E \<in> set (fileName info)
      then rev (takeWhile (\<lambda>c. c \<noteq> 0x2E) (rev (fileName info)))
      else [])"

subsection \<open>Util::removeFileScheme\<close>

text \<open>
  \<^verbatim>\<open>QString path = url.url();
if (url.scheme() == "file")
    path = url.toString(QUrl::PreferLocalFile);
return QUrl::fromPercentEncoding(path.toUtf8());\<close>
\<close>

definition removeFileScheme :: "QUrl \<Rightarrow> QString" where
  "removeFileScheme u =
     (let path = url u;
          path = (if scheme u = QLatin1String ''file'' then toString_PreferLocalFile u else path)
      in fromPercentEncoding (toUtf8 path))"

subsection \<open>GoPro file name tests\<close>

text \<open>
  \<^verbatim>\<open>QStringList list {"GOPR", "GH01", "GS01"};
return list.contains(info.baseName().toUpper());\<close>
\<close>

definition isValidGoProFirstFilePrefix :: "QFileInfo \<Rightarrow> bool" where
  "isValidGoProFirstFilePrefix info =
     (let list = [QLatin1String ''GOPR'', QLatin1String ''GH01'', QLatin1String ''GS01'']
      in QStringList_contains list (toUpper (baseName info)))"

text \<open>
  \<^verbatim>\<open>QStringList list {"GP", "GH", "GS"};
return list.contains(info.baseName().toUpper());\<close>
\<close>

definition isValidGoProPrefix :: "QFileInfo \<Rightarrow> bool" where
  "isValidGoProPrefix info =
     (let list = [QLatin1String ''GP'', QLatin1String ''GH'', QLatin1String ''GS'']
      in QStringList_contains list (toUpper (baseName info)))"

text \<open>
  \<^verbatim>\<open>QStringList list {"MP4", "LRV", "360"};
return list.contains(info.suffix().toUpper());\<close>
\<close>

definition isValidGoProSuffix :: "QFileInfo \<Rightarrow> bool" where
  "isValidGoProSuffix info =
     (let list = [QLatin1String ''MP4'', QLatin1String ''LRV'', QLatin1String ''360'']
      in QStringList_contains list (toUpper (suffix info)))"

subsection \<open>QMap<QString, QStringList>\<close>

text \<open>
  The map \<open>goproFiles\<close> is a list of entries with distinct keys, in ascending key
  order, which is the order a \<open>QMap\<close> is iterated in. \<open>QMap_append key v m\<close> is
  \<open>m[key] << v\<close>: \<open>operator[]\<close> creates an empty entry for a key that is missing.
\<close>

type_synonym QMap = "(QString \<times> QStringList) list"

fun QMap_contains :: "QMap \<Rightarrow> QString \<Rightarrow> bool" where
  "QMap_contains [] key = False"
| "QMap_contains ((k, v) # m) key = (k = key \<or> QMap_contains m key)"

fun QMap_value :: "QMap \<Rightarrow> QString \<Rightarrow> QStringList" where
  "QMap_value [] key = []"
| "QMap_value ((k, v) # m) key = (if k = key then v else QMap_value m key)"

fun QMap_append :: "QString \<Rightarrow> QString \<Rightarrow> QMap \<Rightarrow> QMap" where
  "QMap_append key x [] = [(key, [x])]"
| "QMap_append key x ((k, v) # m) =
     (if key = k then (k, v @ [x]) # m
      else if key < k then (key, [x]) # (k, v) # m
      else (k, v) # QMap_append key x m)"

subsection \<open>Util::sortedFileList\<close>

text \<open>
  The first loop, over the URLs that are left, with the map built so far:
  \<^verbatim>\<open>foreach (QUrl url, urls) {
    QFileInfo fi(removeFileScheme(url));
    if (fi.baseName().size() == 8 && isValidGoProSuffix(fi) && isValidGoProFirstFilePrefix(fi))
        goproFiles[fi.baseName().mid(4)] << fi.filePath();
}\<close>
\<close>

fun mainFiles :: "QUrl list \<Rightarrow> QMap \<Rightarrow> QMap" where
  "mainFiles [] goproFiles = goproFiles"
| "mainFiles (u # urls) goproFiles =
     (let fi = QFileInfo (removeFileScheme u) in
        if length (baseName fi) = 8 \<and> isValidGoProSuffix fi \<and> isValidGoProFirstFilePrefix fi
        then mainFiles urls (QMap_append (mid (baseName fi) 4) (filePath fi) goproFiles)
        else mainFiles urls goproFiles)"

text \<open>
  The second loop:
  \<^verbatim>\<open>foreach (QUrl url, urls) {
    QFileInfo fi(removeFileScheme(url));
    if (fi.baseName().size() == 8 && isValidGoProSuffix(fi) && isValidGoProPrefix(fi)) {
        QString goproNumber = fi.baseName().mid(4);
        // Only if there is a matching main GoPro file.
        if (goproFiles.contains(goproNumber) && goproFiles[goproNumber].size())
            goproFiles[goproNumber] << fi.filePath();
    }
}\<close>
\<close>

fun splitFiles :: "QUrl list \<Rightarrow> QMap \<Rightarrow> QMap" where
  "splitFiles [] goproFiles = goproFiles"
| "splitFiles (u # urls) goproFiles =
     (let fi = QFileInfo (removeFileScheme u) in
        if length (baseName fi) = 8 \<and> isValidGoProSuffix fi \<and> isValidGoProPrefix fi
        then
          (let goproNumber = mid (baseName fi) 4 in
             if QMap_contains goproFiles goproNumber \<and> length (QMap_value goproFiles goproNumber) \<noteq> 0
             then splitFiles urls (QMap_append goproNumber (filePath fi) goproFiles)
             else splitFiles urls goproFiles)
        else splitFiles urls goproFiles)"

text \<open>
  \<^verbatim>\<open>foreach (QString goproNumber, goproFiles.keys())
    goproFiles[goproNumber].sort(Qt::CaseSensitive);\<close>
\<close>

definition sortGroups :: "QMap \<Rightarrow> QMap" where
  "sortGroups goproFiles = map (\<lambda>(goproNumber, paths). (goproNumber, sort paths)) goproFiles"

text \<open>
  \<^verbatim>\<open>foreach (QStringList paths, goproFiles)
    result << paths;\<close>
\<close>

definition goproPaths :: "QMap \<Rightarrow> QStringList" where
  "goproPaths goproFiles = concat (map snd goproFiles)"

text \<open>
  The last loop, with the result built so far:
  \<^verbatim>\<open>foreach (QUrl url, urls) {
    QFileInfo fi(removeFileScheme(url));
    if (fi.baseName().size() == 8 && isValidGoProSuffix(fi) &&
            (isValidGoProFirstFilePrefix(fi) || isValidGoProPrefix(fi))) {
        QString goproNumber = fi.baseName().mid(4);
        if (goproFiles.contains(goproNumber) && goproFiles[goproNumber].contains(fi.filePath()))
            continue;
    }
    result << fi.filePath();
}\<close>
\<close>

fun otherFiles :: "QUrl list \<Rightarrow> QMap \<Rightarrow> QStringList \<Rightarrow> QStringList" where
  "otherFiles [] goproFiles result = result"
| "otherFiles (u # urls) goproFiles result =
     (let fi = QFileInfo (removeFileScheme u) in
        if length (baseName fi) = 8 \<and> isValidGoProSuffix fi
           \<and> (isValidGoProFirstFilePrefix fi \<or> isValidGoProPrefix fi)
        then
          (let goproNumber = mid (baseName fi) 4 in
             if QMap_contains goproFiles goproNumber
                \<and> QStringList_contains (QMap_value goproFiles goproNumber) (filePath fi)
             then otherFiles urls goproFiles result
             else otherFiles urls goproFiles (result @ [filePath fi]))
        else otherFiles urls goproFiles (result @ [filePath fi]))"

definition sortedFileList :: "QUrl list \<Rightarrow> QStringList" where
  "sortedFileList urls =
     (let goproFiles = mainFiles urls [];
          goproFiles = splitFiles urls goproFiles;
          goproFiles = sortGroups goproFiles;
          result = goproPaths goproFiles
      in otherFiles urls goproFiles result)"

subsection \<open>Numeric strings\<close>

text \<open>
  \<^verbatim>\<open>return ch == '.' || ch == ',' || ch == '\'' || ch == ' '
    || ch == QChar(0x00B7) || ch == QChar(0x2009) || ch == QChar(0x202F)
    || ch == QChar(0x02D9) || ch == QChar(0x066B) || ch == QChar(0x066C)
    || ch == QChar(0x2396);\<close>
\<close>

definition isDecimalPoint :: "QChar \<Rightarrow> bool" where
  "isDecimalPoint ch =
     (ch = 0x2E \<or> ch = 0x2C \<or> ch = 0x27 \<or> ch = 0x20
      \<or> ch = 0x00B7 \<or> ch = 0x2009 \<or> ch = 0x202F
      \<or> ch = 0x02D9 \<or> ch = 0x066B \<or> ch = 0x066C
      \<or> ch = 0x2396)"

text \<open>
  \<open>QChar::isDigit\<close> tests the Unicode category of decimal digits, a table of the Qt
  library: the functions that use it take it as the parameter \<open>isDigit\<close>.
  \<^verbatim>\<open>for (int i = 0; i < str.size(); ++i) {
    QCharRef ch = str[i];
    if (ch != '+' && ch != '-' && ch.toLower() != 'e'
        && !isDecimalPoint(ch) && !ch.isDigit())
        return false;
}
return true;\<close>
\<close>

fun isNumeric :: "(QChar \<Rightarrow> bool) \<Rightarrow> QString \<Rightarrow> bool" where
  "isNumeric isDigit [] = True"
| "isNumeric isDigit (ch # str) =
     (if ch \<noteq> 0x2B \<and> ch \<noteq> 0x2D \<and> QChar_toLower ch \<noteq> 0x65
         \<and> \<not> isDecimalPoint ch \<and> \<not> isDigit ch
      then False
      else isNumeric isDigit str)"

text \<open>
  The loop of \<open>Util::convertNumericString\<close> from index \<open>i\<close> on, with the string and
  the flag as they are at that point; it returns both.
  \<^verbatim>\<open>for (int i = 0; i < str.size(); ++i) {
    QCharRef ch = str[i];
    if (ch != decimalPoint && isDecimalPoint(ch)) {
        ch = decimalPoint;
        result = true;
    }
}\<close>
\<close>

function convertLoop :: "nat \<Rightarrow> QChar \<Rightarrow> QString \<Rightarrow> bool \<Rightarrow> bool \<times> QString" where
  "convertLoop i decimalPoint str result =
     (if i < length str then
        (if str ! i \<noteq> decimalPoint \<and> isDecimalPoint (str ! i)
         then convertLoop (i + 1) decimalPoint (str[i := decimalPoint]) True
         else convertLoop (i + 1) decimalPoint str result)
      else (result, str))"
  by pat_completeness auto
termination
  by (relation "measure (\<lambda>(i, decimalPoint, str, result). length str - i)") auto

declare convertLoop.simps [simp del]

text \<open>
  \<open>Util::convertNumericString\<close> changes \<open>str\<close> in place and returns the flag: the
  model returns the flag and the string after the call.
\<close>

definition convertNumericString ::
    "(QChar \<Rightarrow> bool) \<Rightarrow> QString \<Rightarrow> QChar \<Rightarrow> bool \<times> QString" where
  "convertNumericString isDigit str decimalPoint =
     (if isNumeric isDigit str then convertLoop 0 decimalPoint str False
      else (False, str))"

subsection \<open>Files\<close>

text \<open>
  The file system as \<open>QFile::open(QIODevice::ReadOnly)\<close> sees it: the contents of the
  file at a path, or \<open>None\<close> for a path that cannot be opened for reading. An open
  \<open>QFile\<close> is its contents and the read position. \<open>read(maxSize)\<close> gives at most
  \<open>maxSize\<close> bytes from the position on, \<open>readAll()\<close> the rest; both advance the
  position. \<open>seek(pos)\<close> on a file fails for a negative position only.
\<close>

type_synonym filesystem = "QString \<Rightarrow> QByteArray option"

record QFile =
  contents :: QByteArray
  pos :: nat

definition QFile_open :: "QByteArray \<Rightarrow> QFile" where
  "QFile_open bytes = \<lparr>contents = bytes, pos = 0\<rparr>"

definition QFile_size :: "QFile \<Rightarrow> int" where
  "QFile_size file = int (length (contents file))"

definition QFile_read :: "QFile \<Rightarrow> int \<Rightarrow> QByteArray \<times> QFile" where
  "QFile_read file maxSize =
     (let bytes = take (nat maxSize) (drop (pos file) (contents file))
      in (bytes, file\<lparr>pos := pos file + length bytes\<rparr>))"

definition QFile_readAll :: "QFile \<Rightarrow> QByteArray \<times> QFile" where
  "QFile_readAll file =
     (let bytes = drop (pos file) (contents file)
      in (bytes, file\<lparr>pos := pos file + length bytes\<rparr>))"

definition QFile_seek :: "QFile \<Rightarrow> int \<Rightarrow> bool \<times> QFile" where
  "QFile_seek file offset =
     (if offset < 0 then (False, file) else (True, file\<lparr>pos := nat offset\<rparr>))"

text \<open>\<open>QByteArray::toHex\<close>: two lower-case hexadecimal digits for each byte.\<close>

definition toHexLower :: "8 word \<Rightarrow> 8 word" where
  "toHexLower v = (if v AND 0xF < 10 then 0x30 + (v AND 0xF) else 0x61 + ((v AND 0xF) - 10))"

definition toHex :: "QByteArray \<Rightarrow> QByteArray" where
  "toHex ba = concat (map (\<lambda>b. [toHexLower (drop_bit 4 b), toHexLower (b AND 0xF)]) ba)"

subsection \<open>Util::getFileHash\<close>

text \<open>
  \<open>QCryptographicHash::hash(data, QCryptographicHash::Md5)\<close> is the parameter
  \<open>md5\<close>. The returned \<open>QByteArray\<close> of hexadecimal digits becomes a \<open>QString\<close>
  through \<open>QString::fromUtf8\<close>; \<open>QString()\<close> is the empty string.
  \<^verbatim>\<open>QFile file(path);
if (file.open(QIODevice::ReadOnly)) {
    QByteArray fileData;
    if (file.size() > 1000000*2) {
        fileData = file.read(1000000);
        if (file.seek(file.size() - 1000000))
            fileData.append(file.readAll());
    } else {
        fileData = file.readAll();
    }
    file.close();
    return QCryptographicHash::hash(fileData, QCryptographicHash::Md5).toHex();
}
return QString();\<close>
\<close>

definition getFileHash :: "(QByteArray \<Rightarrow> QByteArray) \<Rightarrow> filesystem \<Rightarrow> QString \<Rightarrow> QString" where
  "getFileHash md5 fs path =
     (case fs path of
        None \<Rightarrow> []
      | Some bytes \<Rightarrow>
          (let file = QFile_open bytes;
               fileData =
                 (if QFile_size file > 1000000 * 2 then
                    (let (fileData, file) = QFile_read file 1000000;
                         (ok, file) = QFile_seek file (QFile_size file - 1000000)
                     in if ok then fileData @ fst (QFile_readAll file) else fileData)
                  else fst (QFile_readAll file))
           in fromUtf8 (toHex (md5 fileData))))"

section \<open>Properties\<close>

subsection \<open>Util::sortedFileList\<close>

lemma length_QLatin1String [simp]: "length (QLatin1String s) = length s"
  by (simp add: QLatin1String_def)

lemma length_toUpper: "length (toUpper s) = length s"
  by (simp add: toUpper_def)

text \<open>
  The two prefix tests compare the whole upper-cased stem with their table, so a stem
  that passes has the length of a table entry: 4 and 2.
\<close>

lemma firstFilePrefix_length:
  assumes "isValidGoProFirstFilePrefix fi"
  shows "length (baseName fi) = 4"
proof -
  from assms obtain p where "toUpper (baseName fi) = QLatin1String p" and "length p = 4"
    by (auto simp: isValidGoProFirstFilePrefix_def QStringList_contains_def)
  then have "length (toUpper (baseName fi)) = 4" by simp
  then show ?thesis by (simp add: length_toUpper)
qed

lemma prefix_length:
  assumes "isValidGoProPrefix fi"
  shows "length (baseName fi) = 2"
proof -
  from assms obtain p where "toUpper (baseName fi) = QLatin1String p" and "length p = 2"
    by (auto simp: isValidGoProPrefix_def QStringList_contains_def)
  then have "length (toUpper (baseName fi)) = 2" by simp
  then show ?thesis by (simp add: length_toUpper)
qed

text \<open>Both tests stand next to \<open>size() == 8\<close>, so no loop ever touches the map.\<close>

lemma mainFiles_unchanged: "mainFiles urls goproFiles = goproFiles"
  by (induction urls arbitrary: goproFiles) (auto simp: Let_def dest: firstFilePrefix_length)

lemma splitFiles_unchanged: "splitFiles urls goproFiles = goproFiles"
  by (induction urls arbitrary: goproFiles) (auto simp: Let_def dest: prefix_length)

lemma otherFiles_all:
  "otherFiles urls goproFiles result = result @ map removeFileScheme urls"
  by (induction urls arbitrary: result)
    (auto simp: Let_def dest: prefix_length firstFilePrefix_length)

lemma sortedFileList_paths: "sortedFileList urls = map removeFileScheme urls"
  by (simp add: sortedFileList_def mainFiles_unchanged splitFiles_unchanged otherFiles_all
      sortGroups_def goproPaths_def)

lemmas eval_path =
  removeFileScheme_def QUrl_ofPath_def QUrl_fromLocalFile_def QLatin1String_def
  fromPercentEncoding_def fromUtf8_def

lemmas eval_name =
  baseName_def fileName_def suffix_def mid_def toUpper_def QChar_toUpper_def
  QStringList_contains_def isValidGoProSuffix_def isValidGoProPrefix_def
  isValidGoProFirstFilePrefix_def

text \<open>
  Claim C1: a file with an 8-character stem and an extension among MP4, LRV, 360 is
  taken as a GoPro first file, and its path put into the group of its last 4 stem
  characters, exactly when the first 4 characters of the stem, upper-cased, are GOPR,
  GH01 or GS01. The code at \<open>GOPR0012.MP4\<close>: the stem has 8 characters, the
  extension is MP4 and the stem starts with GOPR, but \<open>isValidGoProFirstFilePrefix\<close>
  fails and the first loop leaves the map empty.
\<close>

theorem first_file_GOPR0012_not_grouped:
  "length (baseName (QFileInfo (removeFileScheme (QUrl_ofPath ''GOPR0012.MP4'')))) = 8 \<and>
   isValidGoProSuffix (QFileInfo (removeFileScheme (QUrl_ofPath ''GOPR0012.MP4''))) \<and>
   take 4 (toUpper (baseName (QFileInfo (removeFileScheme (QUrl_ofPath ''GOPR0012.MP4'')))))
     = QLatin1String ''GOPR'' \<and>
   \<not> isValidGoProFirstFilePrefix (QFileInfo (removeFileScheme (QUrl_ofPath ''GOPR0012.MP4''))) \<and>
   mainFiles [QUrl_ofPath ''GOPR0012.MP4''] [] = []"
  by (simp add: eval_path eval_name)

text \<open>
  Claim C2: a file with an 8-character stem and an extension among MP4, LRV, 360 is
  taken as a GoPro continuation file exactly when its stem, upper-cased, starts with
  GP, GH or GS, and is then appended to the group of its clip key exactly when that
  group exists and is not empty. The code at \<open>GP020012.MP4\<close>, with the group
  \<open>0012\<close> holding \<open>GOPR0012.MP4\<close>: the stem has 8 characters, the extension is
  MP4, the stem starts with GP and the clip key is 0012, but \<open>isValidGoProPrefix\<close>
  fails and the second loop leaves the group as it is.
\<close>

theorem split_file_GP020012_not_appended:
  "length (baseName (QFileInfo (removeFileScheme (QUrl_ofPath ''GP020012.MP4'')))) = 8 \<and>
   isValidGoProSuffix (QFileInfo (removeFileScheme (QUrl_ofPath ''GP020012.MP4''))) \<and>
   take 2 (toUpper (baseName (QFileInfo (removeFileScheme (QUrl_ofPath ''GP020012.MP4'')))))
     = QLatin1String ''GP'' \<and>
   mid (baseName (QFileInfo (removeFileScheme (QUrl_ofPath ''GP020012.MP4'')))) 4
     = QLatin1String ''0012'' \<and>
   \<not> isValidGoProPrefix (QFileInfo (removeFileScheme (QUrl_ofPath ''GP020012.MP4''))) \<and>
   splitFiles [QUrl_ofPath ''GP020012.MP4'']
       [(QLatin1String ''0012'', [QLatin1String ''GOPR0012.MP4''])]
     = [(QLatin1String ''0012'', [QLatin1String ''GOPR0012.MP4''])]"
  by (simp add: eval_path eval_name)

text \<open>
  Claim C3: for the files GOPR0012.MP4, GP020012.MP4, GP030012.MP4 and clip.mov in
  any input order the output is GOPR0012.MP4, GP020012.MP4, GP030012.MP4, clip.mov.
  The code, given clip.mov first, returns the four files in their input order, clip.mov
  first.
\<close>

theorem sortedFileList_clip_first:
  "sortedFileList
       (map QUrl_ofPath [''clip.mov'', ''GOPR0012.MP4'', ''GP020012.MP4'', ''GP030012.MP4''])
     = map QLatin1String [''clip.mov'', ''GOPR0012.MP4'', ''GP020012.MP4'', ''GP030012.MP4''] \<and>
   sortedFileList
       (map QUrl_ofPath [''clip.mov'', ''GOPR0012.MP4'', ''GP020012.MP4'', ''GP030012.MP4''])
     \<noteq> map QLatin1String [''GOPR0012.MP4'', ''GP020012.MP4'', ''GP030012.MP4'', ''clip.mov'']"
  by (simp add: sortedFileList_def sortGroups_def goproPaths_def eval_path eval_name)

text \<open>
  Claim C4: for every input list the multiset of the file references in the output is
  the multiset of the input file references, the file reference of a URL being the path
  the function reads it as, \<open>QFileInfo(removeFileScheme(url)).filePath()\<close>: nothing is
  lost and nothing is emitted twice.
\<close>

theorem sortedFileList_multiset:
  "mset (sortedFileList urls) = mset (map (\<lambda>u. filePath (QFileInfo (removeFileScheme u))) urls)"
  by (simp add: sortedFileList_paths)

theorem sortedFileList_multiset_witness:
  "mset (sortedFileList (map QUrl_ofPath [''clip.mov'', ''GOPR0012.MP4'', ''clip.mov'']))
     = {# QLatin1String ''clip.mov'', QLatin1String ''clip.mov'', QLatin1String ''GOPR0012.MP4'' #}"
  using sortedFileList_multiset [of "map QUrl_ofPath [''clip.mov'', ''GOPR0012.MP4'', ''clip.mov'']"]
  by (simp add: eval_path)

text \<open>
  Claim C7, as stated: for every input list in which no file matches the GoPro pattern
  (a stem of 8 characters, an extension among MP4, LRV, 360, and a stem that starts,
  upper-cased, with GOPR, GH01, GS01, GP, GH or GS) the output is the input list,
  unchanged. For the list that holds the one URL \<open>file:///tmp/clip.mov\<close>, which does
  not match the pattern, the output is \<open>/tmp/clip.mov\<close>, not the input.
\<close>

theorem sortedFileList_without_gopro_files_counterexample:
  "list_all (\<lambda>u. \<not> (length (baseName (QFileInfo (removeFileScheme u))) = 8 \<and>
              isValidGoProSuffix (QFileInfo (removeFileScheme u)) \<and>
              (take 4 (toUpper (baseName (QFileInfo (removeFileScheme u))))
                 \<in> set (map QLatin1String [''GOPR'', ''GH01'', ''GS01'']) \<or>
               take 2 (toUpper (baseName (QFileInfo (removeFileScheme u))))
                 \<in> set (map QLatin1String [''GP'', ''GH'', ''GS''])))) 
      [QUrl_fromLocalFile ''/tmp/clip.mov''] \<and>
   map url [QUrl_fromLocalFile ''/tmp/clip.mov''] = [QLatin1String ''file:///tmp/clip.mov''] \<and>
   sortedFileList [QUrl_fromLocalFile ''/tmp/clip.mov''] = [QLatin1String ''/tmp/clip.mov''] \<and>
   sortedFileList [QUrl_fromLocalFile ''/tmp/clip.mov'']
     \<noteq> map url [QUrl_fromLocalFile ''/tmp/clip.mov'']"
  by (simp add: sortedFileList_def sortGroups_def goproPaths_def eval_path eval_name)

text \<open>
  Claim C7, amended: for every input list in which no file matches the GoPro pattern
  the output is, in the input order, the path that \<open>Util::removeFileScheme\<close> gives
  for each input URL; it is the list of the input URL strings themselves when
  \<open>removeFileScheme\<close> leaves each of them as it is. The empty input gives the empty
  output.
\<close>

theorem sortedFileList_without_gopro_files:
  assumes "list_all (\<lambda>u. \<not> (length (baseName (QFileInfo (removeFileScheme u))) = 8 \<and>
              isValidGoProSuffix (QFileInfo (removeFileScheme u)) \<and>
              (take 4 (toUpper (baseName (QFileInfo (removeFileScheme u))))
                 \<in> set (map QLatin1String [''GOPR'', ''GH01'', ''GS01'']) \<or>
               take 2 (toUpper (baseName (QFileInfo (removeFileScheme u))))
                 \<in> set (map QLatin1String [''GP'', ''GH'', ''GS''])))) urls"
  shows "sortedFileList urls = map (\<lambda>u. filePath (QFileInfo (removeFileScheme u))) urls \<and>
         (list_all (\<lambda>u. removeFileScheme u = url u) urls \<longrightarrow>
            sortedFileList urls = map url urls) \<and>
         sortedFileList [] = []"
proof -
  have "map removeFileScheme urls = map url urls"
    if "list_all (\<lambda>u. removeFileScheme u = url u) urls"
    using that by (induction urls) simp_all
  then show ?thesis
    by (simp add: sortedFileList_paths)
qed

theorem sortedFileList_without_gopro_files_witness:
  "list_all (\<lambda>u. \<not> (length (baseName (QFileInfo (removeFileScheme u))) = 8 \<and>
              isValidGoProSuffix (QFileInfo (removeFileScheme u)) \<and>
              (take 4 (toUpper (baseName (QFileInfo (removeFileScheme u))))
                 \<in> set (map QLatin1String [''GOPR'', ''GH01'', ''GS01'']) \<or>
               take 2 (toUpper (baseName (QFileInfo (removeFileScheme u))))
                 \<in> set (map QLatin1String [''GP'', ''GH'', ''GS''])))) 
      (map QUrl_ofPath [''notes.txt'', ''clip.mov'', ''GOPR12.MP4'']) \<and>
   list_all (\<lambda>u. removeFileScheme u = url u)
      (map QUrl_ofPath [''notes.txt'', ''clip.mov'', ''GOPR12.MP4'']) \<and>
   map url (map QUrl_ofPath [''notes.txt'', ''clip.mov'', ''GOPR12.MP4''])
     = map QLatin1String [''notes.txt'', ''clip.mov'', ''GOPR12.MP4''] \<and>
   sortedFileList (map QUrl_ofPath [''notes.txt'', ''clip.mov'', ''GOPR12.MP4''])
     = map QLatin1String [''notes.txt'', ''clip.mov'', ''GOPR12.MP4'']"
proof -
  have h: "list_all (\<lambda>u. \<not> (length (baseName (QFileInfo (removeFileScheme u))) = 8 \<and>
              isValidGoProSuffix (QFileInfo (removeFileScheme u)) \<and>
              (take 4 (toUpper (baseName (QFileInfo (removeFileScheme u))))
                 \<in> set (map QLatin1String [''GOPR'', ''GH01'', ''GS01'']) \<or>
               take 2 (toUpper (baseName (QFileInfo (removeFileScheme u))))
                 \<in> set (map QLatin1String [''GP'', ''GH'', ''GS''])))) 
      (map QUrl_ofPath [''notes.txt'', ''clip.mov'', ''GOPR12.MP4''])"
    by (simp add: eval_path baseName_def fileName_def)
  have same: "list_all (\<lambda>u. removeFileScheme u = url u)
      (map QUrl_ofPath [''notes.txt'', ''clip.mov'', ''GOPR12.MP4''])"
    by (simp add: eval_path)
  have u: "map url (map QUrl_ofPath [''notes.txt'', ''clip.mov'', ''GOPR12.MP4''])
     = map QLatin1String [''notes.txt'', ''clip.mov'', ''GOPR12.MP4'']"
    by (simp add: QUrl_ofPath_def)
  show ?thesis
    using sortedFileList_without_gopro_files [OF h] h same u by simp
qed

text \<open>
  Claim C8, as stated: the string emitted for an input URL is the input string itself,
  with its \<open>file://\<close> scheme and its percent escapes. The code emits
  \<open>/tmp/clip.mov\<close> for the URL \<open>file:///tmp/clip.mov\<close>.
\<close>

theorem sortedFileList_file_url_counterexample:
  "url (QUrl_fromLocalFile ''/tmp/clip.mov'') = QLatin1String ''file:///tmp/clip.mov'' \<and>
   sortedFileList [QUrl_fromLocalFile ''/tmp/clip.mov''] = [QLatin1String ''/tmp/clip.mov''] \<and>
   sortedFileList [QUrl_fromLocalFile ''/tmp/clip.mov'']
     \<noteq> [url (QUrl_fromLocalFile ''/tmp/clip.mov'')]"
  by (simp add: sortedFileList_def sortGroups_def goproPaths_def eval_path eval_name)

text \<open>
  Claim C8, amended: the emitted strings are the paths that \<open>Util::removeFileScheme\<close>
  gives for the input URLs (the local file form of a URL with the scheme \<open>file\<close>, the
  URL text of any other, percent-decoded in both cases): every emitted string is the
  path of an input URL and the path of every input URL is emitted.
\<close>

theorem sortedFileList_entries:
  "set (sortedFileList urls) = removeFileScheme ` set urls"
  by (simp add: sortedFileList_paths)

theorem sortedFileList_entries_witness:
  "set (sortedFileList [QUrl_fromLocalFile ''/tmp/clip.mov'', QUrl_ofPath ''notes.txt''])
     = {QLatin1String ''/tmp/clip.mov'', QLatin1String ''notes.txt''}"
  using sortedFileList_entries [of "[QUrl_fromLocalFile ''/tmp/clip.mov'', QUrl_ofPath ''notes.txt'']"]
  by (simp add: eval_path)

subsection \<open>Util::coerceMultiple\<close>

lemma sint_in_range:
  "- 2147483648 \<le> k \<Longrightarrow> k \<le> 2147483647 \<Longrightarrow> sint (word_of_int k :: cint) = k"
  by (simp add: sint_sbintrunc' signed_take_bit_int_eq_self)

lemma coerceMultiple_sint:
  assumes "0 \<le> sint v" "0 < sint m" "sint v + sint m - 1 \<le> 2147483647"
  shows "sint (coerceMultiple v m) = ((sint v + sint m - 1) div sint m) * sint m"
proof -
  let ?s = "sint v + sint m - 1"
  let ?q = "?s div sint m"
  have s0: "0 \<le> ?s" using assms by simp
  have "v + m - 1 = word_of_int ?s" by simp
  then have s: "sint (v + m - 1) = ?s"
    using sint_in_range [of ?s] assms s0 by simp
  have sd: "?s sdiv sint m = ?q"
    using s0 assms by (simp add: signed_divide_int_eq_divide_int sgn_if)
  have q0: "0 \<le> ?q" using s0 assms by (simp add: pos_imp_zdiv_nonneg_iff)
  have "?q * sint m + ?s mod sint m = ?s" by simp
  moreover have "0 \<le> ?s mod sint m" using assms(2) by simp
  ultimately have qm: "?q * sint m \<le> ?s" by linarith
  have "?q * 1 \<le> ?q * sint m" using q0 assms(2) by (intro mult_left_mono) simp_all
  then have qs: "?q \<le> ?s" using qm by simp
  have "int_div (v + m - 1) m = word_of_int ?q"
    unfolding int_div_def s sd ..
  then have "coerceMultiple v m = word_of_int (?q * sint m)"
    unfolding coerceMultiple_def by simp
  moreover have "0 \<le> ?q * sint m" using q0 assms(2) by simp
  ultimately show ?thesis
    using sint_in_range [of "?q * sint m"] qm assms(3) by simp
qed

lemma least_multiple:
  fixes v m :: int
  assumes "0 < m"
  defines "r \<equiv> (v + m - 1) div m * m"
  shows "m dvd r" "v \<le> r" "m dvd k \<Longrightarrow> v \<le> k \<Longrightarrow> r \<le> k"
proof -
  show "m dvd r" by (simp add: r_def)
  have e: "r + (v + m - 1) mod m = v + m - 1" by (simp add: r_def)
  have "(v + m - 1) mod m < m" using assms(1) by simp
  with e show "v \<le> r" by linarith
  assume "m dvd k" "v \<le> k"
  then obtain j where k: "k = j * m" by (metis dvd_def mult.commute)
  have "0 \<le> (v + m - 1) mod m" using assms(1) by simp
  with e have "r - m < v" by linarith
  then have "((v + m - 1) div m - 1) * m < j * m"
    using \<open>v \<le> k\<close> k by (simp add: r_def algebra_simps)
  then have "(v + m - 1) div m - 1 < j" using assms(1) by (simp add: mult_less_cancel_right)
  then have "(v + m - 1) div m \<le> j" by simp
  then show "r \<le> k" unfolding r_def k using assms(1) by (simp add: mult_right_mono)
qed

text \<open>
  Claim C9, as stated: for every \<open>v \<ge> 0\<close> and \<open>m > 0\<close> the result is the smallest
  multiple of \<open>m\<close> that is at least \<open>v\<close>. On 32-bit \<open>int\<close> this fails when
  \<open>v + m - 1\<close> leaves the range: for \<open>v = 2147483647\<close>, \<open>m = 2\<close> the sum wraps
  and the result is below \<open>v\<close> (the smallest multiple, \<open>2147483648\<close>, is not an
  \<open>int\<close> at all).
\<close>

theorem coerceMultiple_overflow_counterexample:
  "0 \<le> sint (2147483647 :: cint) \<and> 0 < sint (2 :: cint) \<and>
   sint (coerceMultiple 2147483647 2) = - 2147483648 \<and>
   \<not> sint (2147483647 :: cint) \<le> sint (coerceMultiple 2147483647 2)"
  by (simp add: coerceMultiple_def int_div_def)

text \<open>
  Claim C9, amended: for every \<open>v \<ge> 0\<close> and \<open>m > 0\<close> with
  \<open>v + m - 1 \<le> 2147483647\<close> (the intermediate sum does not overflow),
  \<open>coerceMultiple v m\<close> is a multiple of \<open>m\<close>, is at least \<open>v\<close>, and is below
  or equal to every other multiple of \<open>m\<close> that is at least \<open>v\<close>.
\<close>

theorem coerceMultiple_least_multiple:
  assumes "0 \<le> sint v" and "0 < sint m" and "sint v + sint m - 1 \<le> 2147483647"
  shows "sint m dvd sint (coerceMultiple v m) \<and>
         sint v \<le> sint (coerceMultiple v m) \<and>
         (\<forall>k. sint m dvd k \<and> sint v \<le> k \<longrightarrow> sint (coerceMultiple v m) \<le> k)"
proof -
  let ?r = "(sint v + sint m - 1) div sint m * sint m"
  have r: "sint (coerceMultiple v m) = ?r"
    by (rule coerceMultiple_sint [OF assms])
  have "sint m dvd ?r"
    by (rule least_multiple(1) [OF assms(2)])
  moreover have "sint v \<le> ?r"
    by (rule least_multiple(2) [OF assms(2)])
  moreover have "?r \<le> k" if "sint m dvd k" and "sint v \<le> k" for k
    using that by (rule least_multiple(3) [OF assms(2)])
  ultimately show ?thesis
    unfolding r by blast
qed

theorem coerceMultiple_least_multiple_witness:
  "0 \<le> sint (7 :: cint) \<and> 0 < sint (4 :: cint) \<and> sint (7 :: cint) + sint (4 :: cint) - 1 \<le> 2147483647 \<and>
   sint (coerceMultiple 7 4) = 8 \<and>
   sint (4 :: cint) dvd sint (coerceMultiple 7 4) \<and> sint (7 :: cint) \<le> sint (coerceMultiple 7 4)"
proof -
  have h1: "0 \<le> sint (7 :: cint)" by simp
  have h2: "0 < sint (4 :: cint)" by simp
  have h3: "sint (7 :: cint) + sint (4 :: cint) - 1 \<le> 2147483647" by simp
  have v: "sint (coerceMultiple 7 4) = 8" by (simp add: coerceMultiple_def int_div_def)
  show ?thesis
    using coerceMultiple_least_multiple [OF h1 h2 h3] h1 h2 h3 v by simp
qed

subsection \<open>Util::convertNumericString\<close>

lemma add_0x20_eq_e: "(ch :: QChar) + 0x20 = 0x65 \<longleftrightarrow> ch = 0x45"
proof -
  have "ch + 0x20 = 0x65 \<longleftrightarrow> ch = 0x65 - 0x20"
    by (rule eq_diff_eq [symmetric])
  then show ?thesis by simp
qed

lemma QChar_toLower_e: "QChar_toLower ch = 0x65 \<longleftrightarrow> ch = 0x65 \<or> ch = 0x45"
proof (cases "0x41 \<le> ch \<and> ch \<le> 0x5A")
  case True
  then have "QChar_toLower ch = ch + 0x20" by (simp add: QChar_toLower_def)
  moreover have "ch \<noteq> 0x65" using True by auto
  ultimately show ?thesis by (simp add: add_0x20_eq_e)
next
  case False
  then have n: "ch \<noteq> 0x45" by auto
  show ?thesis
  proof (cases "ch = 0x130 \<or> ch = 0x212A")
    case True
    then show ?thesis using False by (auto simp: QChar_toLower_def)
  next
    case f: False
    then have "QChar_toLower ch = ch" using False by (simp add: QChar_toLower_def)
    then show ?thesis using n by simp
  qed
qed

lemma isNumeric_list_all:
  "isNumeric isDigit s =
     list_all (\<lambda>c. c = 0x2B \<or> c = 0x2D \<or> isDigit c \<or> c = 0x65 \<or> c = 0x45 \<or> isDecimalPoint c) s"
  by (induction s) (auto simp: QChar_toLower_e)

text \<open>
  The loop from index \<open>i\<close> on: the part before \<open>i\<close> stays, every decimal point other
  than \<open>d\<close> after it becomes \<open>d\<close>, and the flag is raised when there is one.
\<close>

lemma convertLoop_eq:
  "i \<le> length str \<Longrightarrow>
   convertLoop i d str r =
     (r \<or> list_ex (\<lambda>c. isDecimalPoint c \<and> c \<noteq> d) (drop i str),
      take i str @ map (\<lambda>c. if isDecimalPoint c \<and> c \<noteq> d then d else c) (drop i str))"
proof (induction i d str r rule: convertLoop.induct)
  case (1 i d str r)
  show ?case
  proof (cases "i < length str")
    case False
    with "1.prems" show ?thesis by (subst convertLoop.simps) simp
  next
    case True
    then have d: "drop i str = str ! i # drop (Suc i) str"
      by (simp add: Cons_nth_drop_Suc)
    have t: "take (Suc i) str = take i str @ [str ! i]"
      using True by (simp add: take_Suc_conv_app_nth)
    show ?thesis
    proof (cases "str ! i \<noteq> d \<and> isDecimalPoint (str ! i)")
      case c: True
      have "convertLoop i d str r = convertLoop (i + 1) d (str[i := d]) True"
        using True c by (subst convertLoop.simps) simp
      also have "\<dots> = (True, take (i + 1) (str[i := d]) @
            map (\<lambda>c. if isDecimalPoint c \<and> c \<noteq> d then d else c) (drop (i + 1) (str[i := d])))"
        using "1.IH"(1) [OF True c] True by simp
      also have "take (i + 1) (str[i := d]) = take i str @ [d]"
        using True by (simp add: take_Suc_conv_app_nth)
      also have "drop (i + 1) (str[i := d]) = drop (Suc i) str"
        by simp
      finally show ?thesis using c d by simp
    next
      case c: False
      have "convertLoop i d str r = convertLoop (i + 1) d str r"
        using True c by (subst convertLoop.simps) auto
      also have "\<dots> = (r \<or> list_ex (\<lambda>c. isDecimalPoint c \<and> c \<noteq> d) (drop (i + 1) str),
          take (i + 1) str @ map (\<lambda>c. if isDecimalPoint c \<and> c \<noteq> d then d else c) (drop (i + 1) str))"
        using "1.IH"(2) [OF True c] True by simp
      finally show ?thesis using c d t by auto
    qed
  qed
qed

lemma map_changed_iff:
  "map (\<lambda>c. if isDecimalPoint c \<and> c \<noteq> d then d else c) s \<noteq> s
     \<longleftrightarrow> list_ex (\<lambda>c. isDecimalPoint c \<and> c \<noteq> d) s"
  by (induction s) auto

text \<open>
  Claim C10: for every string \<open>s\<close> and decimal point \<open>d\<close>,
  \<open>convertNumericString\<close> returns true exactly when it changed \<open>s\<close>; that happens
  exactly when \<open>s\<close> passes \<open>isNumeric\<close> (every character is a sign, a digit, \<open>e\<close>,
  \<open>E\<close> or a recognised decimal point; the empty string passes) and holds a recognised
  decimal point other than \<open>d\<close>; then every such character has become \<open>d\<close> and no
  other character has changed.
\<close>

theorem convertNumericString_changes:
  "convertNumericString isDigit s d =
     (isNumeric isDigit s \<and> list_ex (\<lambda>c. isDecimalPoint c \<and> c \<noteq> d) s,
      if isNumeric isDigit s \<and> list_ex (\<lambda>c. isDecimalPoint c \<and> c \<noteq> d) s
      then map (\<lambda>c. if isDecimalPoint c \<and> c \<noteq> d then d else c) s else s) \<and>
   fst (convertNumericString isDigit s d) = (snd (convertNumericString isDigit s d) \<noteq> s) \<and>
   isNumeric isDigit s =
     list_all (\<lambda>c. c = 0x2B \<or> c = 0x2D \<or> isDigit c \<or> c = 0x65 \<or> c = 0x45 \<or> isDecimalPoint c) s \<and>
   isNumeric isDigit []"
proof -
  let ?f = "\<lambda>c. if isDecimalPoint c \<and> c \<noteq> d then d else c"
  let ?P = "\<lambda>c. isDecimalPoint c \<and> c \<noteq> d"
  have same: "map ?f s = s" if "\<not> list_ex ?P s"
    using that map_changed_iff [of d s] by blast
  have 1: "convertNumericString isDigit s d =
     (isNumeric isDigit s \<and> list_ex ?P s,
      if isNumeric isDigit s \<and> list_ex ?P s then map ?f s else s)"
    using same by (simp add: convertNumericString_def convertLoop_eq)
  have 2: "fst (convertNumericString isDigit s d) = (snd (convertNumericString isDigit s d) \<noteq> s)"
    unfolding 1 using map_changed_iff [of d s] by auto
  show ?thesis
    using 1 2 isNumeric_list_all [of isDigit s] by simp
qed

theorem convertNumericString_changes_witness:
  "convertNumericString (\<lambda>c. 0x30 \<le> c \<and> c \<le> 0x39) (QLatin1String ''1,5e+3'') 0x2E
     = (True, QLatin1String ''1.5e+3'') \<and>
   isNumeric (\<lambda>c. 0x30 \<le> c \<and> c \<le> 0x39) (QLatin1String ''1,5e+3'')"
  using convertNumericString_changes
    [of "\<lambda>c. 0x30 \<le> c \<and> c \<le> 0x39" "QLatin1String ''1,5e+3''" "0x2E"]
  by (simp add: QLatin1String_def isDecimalPoint_def QChar_toLower_def)

subsection \<open>Util::getFileHash\<close>

lemma getFileHash_unreadable: "fs path = None \<Longrightarrow> getFileHash hash fs path = []"
  by (simp add: getFileHash_def)

lemma getFileHash_large:
  assumes "fs path = Some bytes" and "2000000 < length bytes"
  shows "getFileHash hash fs path =
           fromUtf8 (toHex (hash (take 1000000 bytes @ drop (length bytes - 1000000) bytes)))"
proof -
  have "nat (int (length bytes) - 1000000) = length bytes - 1000000"
    by simp
  then show ?thesis
    using assms
    by (simp add: getFileHash_def QFile_open_def QFile_size_def QFile_read_def QFile_seek_def
        QFile_readAll_def Let_def)
qed

lemma getFileHash_small:
  assumes "fs path = Some bytes" and "length bytes \<le> 2000000"
  shows "getFileHash hash fs path = fromUtf8 (toHex (hash bytes))"
  using assms
  by (simp add: getFileHash_def QFile_open_def QFile_size_def QFile_readAll_def Let_def)

lemma convertToUnicode_ascii:
  "list_all (\<lambda>b. b < 0x80) bs \<Longrightarrow> convertToUnicode bs = map ucast bs"
  by (induction bs) simp_all

lemma fromUtf8_ascii:
  assumes "list_all (\<lambda>b. b < 0x80) bs"
  shows "fromUtf8 bs = map ucast bs"
proof -
  have "take 3 bs \<noteq> [0xEF, 0xBB, 0xBF]"
  proof (cases bs)
    case Nil
    then show ?thesis by simp
  next
    case (Cons b rest)
    with assms have "b < 0x80" by simp
    then have "b \<noteq> 0xEF" by auto
    with Cons show ?thesis by simp
  qed
  then show ?thesis
    using assms by (simp add: fromUtf8_def convertToUnicode_ascii)
qed

lemma nibble_cases:
  fixes v :: "8 word"
  shows "v AND 0xF \<in> {0, 1, 2, 3, 4, 5, 6, 7, 8, 9, 10, 11, 12, 13, 14, 15}"
proof -
  have "v AND 0xF \<le> 0xF" by (rule word_and_le1)
  then have "unat (v AND 0xF) \<le> 15" by (simp add: word_le_nat_alt)
  then have "unat (v AND 0xF) \<in> {0, 1, 2, 3, 4, 5, 6, 7, 8, 9, 10, 11, 12, 13, 14, 15}"
    by (simp only: insert_iff empty_iff) arith
  then have "word_of_nat (unat (v AND 0xF)) \<in> (word_of_nat ` {0, 1, 2, 3, 4, 5, 6, 7, 8, 9, 10, 11, 12, 13, 14, 15} :: 8 word set)"
    by (rule imageI)
  then show ?thesis by simp
qed

lemma toHexLower_digit:
  "toHexLower v \<in> {0x30, 0x31, 0x32, 0x33, 0x34, 0x35, 0x36, 0x37, 0x38, 0x39, 0x61, 0x62, 0x63, 0x64, 0x65, 0x66}"
  using nibble_cases [of v] unfolding toHexLower_def
  by (elim insertE emptyE) simp_all

lemma length_toHex: "length (toHex bs) = 2 * length bs"
  by (induction bs) (simp_all add: toHex_def)

lemma toHex_digits:
  "list_all (\<lambda>b. b \<in> {0x30, 0x31, 0x32, 0x33, 0x34, 0x35, 0x36, 0x37, 0x38, 0x39, 0x61, 0x62, 0x63, 0x64, 0x65, 0x66}) (toHex bs)"
proof (induction bs)
  case Nil
  show ?case by (simp add: toHex_def)
next
  case (Cons b bs)
  have "toHex (b # bs) = toHexLower (drop_bit 4 b) # toHexLower (b AND 0xF) # toHex bs"
    by (simp add: toHex_def)
  then show ?case
    using Cons toHexLower_digit [of "drop_bit 4 b"] toHexLower_digit [of "b AND 0xF"]
    by (simp only: list.pred_inject)
qed

lemma hex_digit_ascii:
  fixes b :: "8 word"
  assumes "b \<in> {0x30, 0x31, 0x32, 0x33, 0x34, 0x35, 0x36, 0x37, 0x38, 0x39, 0x61, 0x62, 0x63, 0x64, 0x65, 0x66}"
  shows "b < 0x80" and "(ucast b :: QChar) \<in> set (QLatin1String ''0123456789abcdef'')"
  using assms by (auto simp: QLatin1String_def)

lemma fromUtf8_toHex: "fromUtf8 (toHex bs) = map ucast (toHex bs)"
proof (rule fromUtf8_ascii)
  show "list_all (\<lambda>b. b < 0x80) (toHex bs)"
    using toHex_digits [of bs] hex_digit_ascii(1) by (simp only: list_all_iff) blast
qed

text \<open>
  Claim C5: a readable file of more than 2,000,000 bytes is hashed through a bounded
  sample, its first 1,000,000 bytes followed by the bytes from position
  size - 1,000,000 to the end; a readable file of at most 2,000,000 bytes (2,000,000
  included) is hashed whole. The result is the hexadecimal form of the MD5 of those
  bytes.
\<close>

theorem getFileHash_bounded_sample:
  assumes "fs path = Some bytes"
  shows "(2000000 < length bytes \<longrightarrow>
            getFileHash hash fs path =
              fromUtf8 (toHex (hash (take 1000000 bytes @ drop (length bytes - 1000000) bytes)))) \<and>
         (length bytes \<le> 2000000 \<longrightarrow>
            getFileHash hash fs path = fromUtf8 (toHex (hash bytes)))"
  using getFileHash_large [where fs = fs and path = path and hash = hash, OF assms]
    getFileHash_small [where fs = fs and path = path and hash = hash, OF assms]
  by blast

theorem getFileHash_bounded_sample_witness:
  "length (replicate 1000000 1 @ [2] @ replicate 1000000 (3 :: 8 word)) = 2000001 \<and>
   getFileHash (take 16) (\<lambda>p. Some (replicate 1000000 1 @ [2] @ replicate 1000000 3)) []
     = fromUtf8 (toHex (take 16 (replicate 1000000 1 @ replicate 1000000 3))) \<and>
   getFileHash (take 16) (\<lambda>p. Some (replicate 2000000 5)) []
     = fromUtf8 (toHex (take 16 (replicate 2000000 5)))"
  using getFileHash_bounded_sample
      [of "\<lambda>p. Some (replicate 1000000 1 @ [2] @ replicate 1000000 3)" "[]"
          "replicate 1000000 1 @ [2] @ replicate 1000000 3" "take 16"]
    getFileHash_bounded_sample
      [of "\<lambda>p. Some (replicate 2000000 5)" "[]" "replicate 2000000 5" "take 16"]
  by simp

lemma toHexLower_table:
  "(ucast (toHexLower v) :: QChar) = QLatin1String ''0123456789abcdef'' ! unat (v AND 0xF)"
  using nibble_cases [of v] unfolding toHexLower_def
  by (elim insertE emptyE) (simp_all add: QLatin1String_def)

lemma high_nibble: "drop_bit 4 (b :: 8 word) AND 0xF = drop_bit 4 b"
proof (rule bit_word_eqI)
  fix n assume "n < LENGTH(8)"
  have m: "(0xF :: 8 word) = mask 4" by (simp add: mask_eq_exp_minus_1)
  show "bit (drop_bit 4 b AND 0xF) n \<longleftrightarrow> bit (drop_bit 4 b) n"
    unfolding m by (auto simp: bit_simps dest: bit_imp_le_length)
qed

lemma toHex_nth:
  "i < length bs \<Longrightarrow>
   toHex bs ! (2 * i) = toHexLower (drop_bit 4 (bs ! i)) \<and>
   toHex bs ! (2 * i + 1) = toHexLower (bs ! i AND 0xF)"
proof (induction bs arbitrary: i)
  case Nil
  then show ?case by simp
next
  case (Cons b bs)
  have c: "toHex (b # bs) = toHexLower (drop_bit 4 b) # toHexLower (b AND 0xF) # toHex bs"
    by (simp add: toHex_def)
  show ?case
  proof (cases i)
    case 0
    then show ?thesis by (simp add: c)
  next
    case (Suc j)
    with Cons.prems have "j < length bs" by simp
    from Cons.IH [OF this] show ?thesis by (simp add: c Suc)
  qed
qed

lemma getFileHash_eq:
  assumes "fs path = Some bytes"
  shows "getFileHash hash fs path =
           map ucast (toHex (hash (if 2000000 < length bytes
              then take 1000000 bytes @ drop (length bytes - 1000000) bytes else bytes)))"
proof (cases "2000000 < length bytes")
  case True
  then show ?thesis
    using getFileHash_large [where fs = fs and path = path and hash = hash, OF assms True]
    by (simp add: fromUtf8_toHex)
next
  case False
  then have "length bytes \<le> 2000000" by simp
  then show ?thesis
    using getFileHash_small [where fs = fs and path = path and hash = hash, OF assms] False
    by (simp add: fromUtf8_toHex)
qed

lemma hex_digits_nth:
  assumes "i < length bs"
  shows "map ucast (toHex bs) ! (2 * i) =
           QLatin1String ''0123456789abcdef'' ! unat (drop_bit 4 (bs ! i))"
    and "map ucast (toHex bs) ! (2 * i + 1) =
           QLatin1String ''0123456789abcdef'' ! unat (bs ! i AND 0xF)"
proof -
  have l: "2 * i < length (toHex bs)" "2 * i + 1 < length (toHex bs)"
    using assms by (simp_all add: length_toHex)
  have a: "(bs ! i AND 0xF) AND 0xF = bs ! i AND 0xF"
    by (simp add: and.assoc)
  show "map ucast (toHex bs) ! (2 * i) =
           QLatin1String ''0123456789abcdef'' ! unat (drop_bit 4 (bs ! i))"
    using l(1) toHex_nth [OF assms] toHexLower_table [of "drop_bit 4 (bs ! i)"]
    by (simp add: high_nibble)
  show "map ucast (toHex bs) ! (2 * i + 1) =
           QLatin1String ''0123456789abcdef'' ! unat (bs ! i AND 0xF)"
    using l(2) toHex_nth [OF assms] toHexLower_table [of "bs ! i AND 0xF"]
    by (simp add: a)
qed

text \<open>
  Claim C6: for a path that cannot be opened for reading \<open>getFileHash\<close> returns
  the empty string; for a readable file it returns the digest of its sampled bytes as 32
  lower-case hexadecimal digits: with an MD5 function that gives 16 bytes, the
  characters at \<open>2 * i\<close> and \<open>2 * i + 1\<close> are the digits of the high and the low
  half of byte \<open>i\<close> of the MD5 of the bytes that claim C5 names.
\<close>

theorem getFileHash_digest_or_empty:
  assumes "\<forall>d. length (hash d) = 16"
  shows "(fs path = None \<longrightarrow> getFileHash hash fs path = []) \<and>
         (\<forall>bytes. fs path = Some bytes \<longrightarrow>
            (let fileData = (if 2000000 < length bytes
                             then take 1000000 bytes @ drop (length bytes - 1000000) bytes
                             else bytes);
                 digest = getFileHash hash fs path
             in length digest = 32 \<and>
                list_all (\<lambda>c. c \<in> set (QLatin1String ''0123456789abcdef'')) digest \<and>
                (\<forall>i<16.
                   digest ! (2 * i) =
                     QLatin1String ''0123456789abcdef'' ! unat (drop_bit 4 (hash fileData ! i)) \<and>
                   digest ! (2 * i + 1) =
                     QLatin1String ''0123456789abcdef'' ! unat (hash fileData ! i AND 0xF))))"
proof (intro conjI allI impI)
  assume "fs path = None"
  then show "getFileHash hash fs path = []" by (rule getFileHash_unreadable)
next
  fix bytes assume s: "fs path = Some bytes"
  define fileData where "fileData =
    (if 2000000 < length bytes then take 1000000 bytes @ drop (length bytes - 1000000) bytes
     else bytes)"
  have h: "getFileHash hash fs path = map ucast (toHex (hash fileData))"
    unfolding fileData_def by (rule getFileHash_eq [where fs = fs and path = path, OF s])
  have n: "length (hash fileData) = 16" using assms by simp
  have len: "length (getFileHash hash fs path) = 32"
    by (simp add: h length_toHex n)
  have dig: "list_all (\<lambda>c. c \<in> set (QLatin1String ''0123456789abcdef''))
               (map ucast (toHex (hash fileData)))"
    using toHex_digits [of "hash fileData"] hex_digit_ascii(2)
    by (simp only: list_all_iff set_map) blast
  have nth: "map ucast (toHex (hash fileData)) ! (2 * i) =
               QLatin1String ''0123456789abcdef'' ! unat (drop_bit 4 (hash fileData ! i)) \<and>
             map ucast (toHex (hash fileData)) ! (2 * i + 1) =
               QLatin1String ''0123456789abcdef'' ! unat (hash fileData ! i AND 0xF)"
    if "i < 16" for i
    using hex_digits_nth [of i "hash fileData"] that n by simp
  show "let fileData = (if 2000000 < length bytes
                             then take 1000000 bytes @ drop (length bytes - 1000000) bytes
                             else bytes);
                 digest = getFileHash hash fs path
             in length digest = 32 \<and>
                list_all (\<lambda>c. c \<in> set (QLatin1String ''0123456789abcdef'')) digest \<and>
                (\<forall>i<16.
                   digest ! (2 * i) =
                     QLatin1String ''0123456789abcdef'' ! unat (drop_bit 4 (hash fileData ! i)) \<and>
                   digest ! (2 * i + 1) =
                     QLatin1String ''0123456789abcdef'' ! unat (hash fileData ! i AND 0xF))"
    unfolding Let_def fileData_def [symmetric] using len dig nth by (simp only: h) blast
qed

theorem getFileHash_digest_or_empty_witness:
  "(\<forall>d. length (take 16 (d @ replicate 16 (0 :: 8 word))) = 16) \<and>
   getFileHash (\<lambda>d. take 16 (d @ replicate 16 0))
       (\<lambda>p. if p = QLatin1String ''/tmp/a'' then Some [0x01, 0x02, 0xAB] else None)
       (QLatin1String ''/nonexistent'') = [] \<and>
   getFileHash (\<lambda>d. take 16 (d @ replicate 16 0))
       (\<lambda>p. if p = QLatin1String ''/tmp/a'' then Some [0x01, 0x02, 0xAB] else None)
       (QLatin1String ''/tmp/a'') = QLatin1String ''0102ab00000000000000000000000000'' \<and>
   length (getFileHash (\<lambda>d. take 16 (d @ replicate 16 0))
       (\<lambda>p. if p = QLatin1String ''/tmp/a'' then Some [0x01, 0x02, 0xAB] else None)
       (QLatin1String ''/tmp/a'')) = 32 \<and>
   list_all (\<lambda>c. c \<in> set (QLatin1String ''0123456789abcdef''))
     (getFileHash (\<lambda>d. take 16 (d @ replicate 16 0))
       (\<lambda>p. if p = QLatin1String ''/tmp/a'' then Some [0x01, 0x02, 0xAB] else None)
       (QLatin1String ''/tmp/a''))"
proof -
  let ?hash = "\<lambda>d :: QByteArray. take 16 (d @ replicate 16 0)"
  let ?fs = "\<lambda>p. if p = QLatin1String ''/tmp/a'' then Some [0x01, 0x02, 0xAB :: 8 word] else None"
  have h: "\<forall>d. length (?hash d) = 16"
    by (simp add: min_def)
  have n: "?fs (QLatin1String ''/nonexistent'') = None"
    by (simp add: QLatin1String_def)
  have s: "?fs (QLatin1String ''/tmp/a'') = Some [0x01, 0x02, 0xAB]"
    by simp
  have r: "replicate 16 (0 :: 8 word) = [0, 0, 0, 0, 0, 0, 0, 0, 0, 0, 0, 0, 0, 0, 0, 0]"
    by (simp add: numeral_eq_Suc)
  have v: "getFileHash ?hash ?fs (QLatin1String ''/tmp/a'')
             = QLatin1String ''0102ab00000000000000000000000000''"
    by (subst getFileHash_eq [where fs = ?fs and hash = ?hash, OF s])
      (simp add: r toHex_def toHexLower_def QLatin1String_def)
  show ?thesis
    using getFileHash_digest_or_empty [OF h, of ?fs "QLatin1String ''/nonexistent''"]
      getFileHash_digest_or_empty [OF h, of ?fs "QLatin1String ''/tmp/a''"]
      n s v
    by (simp add: Let_def min_def)
qed

end
